theory Spec2Isabelle
  imports Complex_Main "HOL-Library.Sublist" "HOL-Library.Log_Nat"
begin

section \<open>Text, as Python sees it\<close>

text \<open>
  A Python \<open>str\<close> is modelled as a \<open>string\<close>: each \<open>char\<close> stands for one code point
  below 256 (ASCII and the Latin-1 supplement). Text with code points beyond that range
  is outside this development.
\<close>

datatype error = ValueError | AttributeError | FileNotFoundError

definition is_digit :: "char \<Rightarrow> bool" where
  \<comment> \<open>the class \<open>\d\<close> of \<open>re\<close> on \<open>str\<close> patterns; below 256 only \<open>0\<close> to \<open>9\<close> are decimal digits\<close>
  "is_digit c = (48 \<le> (of_char c :: nat) \<and> (of_char c :: nat) \<le> 57)"

definition digit_val :: "char \<Rightarrow> nat" where
  "digit_val c = of_char c - 48"

definition digit_char :: "nat \<Rightarrow> char" where
  "digit_char d = ''0123456789'' ! d"

definition casefold_char :: "char \<Rightarrow> string" where
  \<comment> \<open>\<open>str.casefold\<close> on one code point below 256: the upper-case letters go to lower case,
      the sharp s (223) becomes \<open>ss\<close>, the multiplication sign (215) stays. The micro sign
      (181), which Python sends to the Greek mu (beyond 255), is kept as it is: no search
      below looks for a letter outside ASCII.\<close>
  "casefold_char c =
     (let n = (of_char c :: nat) in
      if 65 \<le> n \<and> n \<le> 90 then [char_of (n + 32)]
      else if n = 223 then ''ss''
      else if 192 \<le> n \<and> n \<le> 222 \<and> n \<noteq> 215 then [char_of (n + 32)]
      else [c])"

definition casefold :: "string \<Rightarrow> string" where
  "casefold s = concat (map casefold_char s)"

fun py_in :: "string \<Rightarrow> string \<Rightarrow> bool" where
  \<comment> \<open>\<open>needle in hay\<close> on strings\<close>
  "py_in needle [] = (needle = [])"
| "py_in needle (c # cs) = (prefix needle (c # cs) \<or> py_in needle cs)"

definition is_linebreak :: "char \<Rightarrow> bool" where
  \<comment> \<open>the line boundaries of \<open>str.splitlines\<close> below 256: LF, VT, FF, CR, FS, GS, RS, NEL\<close>
  "is_linebreak c = ((of_char c :: nat) \<in> {10, 11, 12, 13, 28, 29, 30, 133})"

fun splitlines_from :: "string \<Rightarrow> string \<Rightarrow> string list" where
  \<comment> \<open>\<open>cur\<close> is the line read so far; CR LF counts as one boundary\<close>
  "splitlines_from cur [] = (if cur = [] then [] else [cur])"
| "splitlines_from cur (c # cs) =
     (if c = CHR 0x0D \<and> cs \<noteq> [] \<and> hd cs = CHR 0x0A then cur # splitlines_from [] (tl cs)
      else if is_linebreak c then cur # splitlines_from [] cs
      else splitlines_from (cur @ [c]) cs)"

definition splitlines :: "string \<Rightarrow> string list" where
  \<comment> \<open>\<open>str.splitlines()\<close>, line ends dropped\<close>
  "splitlines s = splitlines_from [] s"

fun str_nat :: "nat \<Rightarrow> string" where
  \<comment> \<open>\<open>str(n)\<close> for a non-negative integer\<close>
  "str_nat n = (if n < 10 then [digit_char n] else str_nat (n div 10) @ [digit_char (n mod 10)])"

declare str_nat.simps [simp del]

definition int_of_digits :: "string \<Rightarrow> nat" where
  \<comment> \<open>the value of a run of decimal digits\<close>
  "int_of_digits s = foldl (\<lambda>acc c. 10 * acc + digit_val c) 0 s"

section \<open>The correction factor\<close>

definition CORRECTION_FACTOR :: string where
  "CORRECTION_FACTOR = ''25/24''"

definition Fraction :: "string \<Rightarrow> error + rat" where
  \<comment> \<open>\<open>Fraction(s)\<close> for the two spellings the constant takes, \<open>n\<close> and \<open>n/d\<close> in decimal digits
      with \<open>d\<close> not zero; the other spellings \<open>fractions.Fraction\<close> reads (signs, blanks, decimal
      points, exponents) and its ZeroDivisionError are outside this model\<close>
  "Fraction s =
     (let n = takeWhile is_digit s; r = dropWhile is_digit s in
      if n = [] then Inl ValueError
      else if r = [] then Inr (of_nat (int_of_digits n))
      else if hd r = CHR ''/'' \<and> tl r \<noteq> [] \<and> list_all is_digit (tl r) \<and> int_of_digits (tl r) \<noteq> 0
        then Inr (of_nat (int_of_digits n) / of_nat (int_of_digits (tl r)))
      else Inl ValueError)"

definition str_Fraction :: "rat \<Rightarrow> string" where
  \<comment> \<open>\<open>str\<close> of a non-negative \<open>Fraction\<close>: lowest terms, the denominator left out when it is 1\<close>
  "str_Fraction q =
     (let (n, d) = quotient_of q in
      if d = 1 then str_nat (nat n) else str_nat (nat n) @ ''/'' @ str_nat (nat d))"

section \<open>Python floats\<close>

text \<open>
  A Python \<open>float\<close> is an IEEE 754 binary64 number. The corrector only ever holds
  non-negative values, so a float is modelled as the rational it stands for, or one of
  the two special values it can reach; negative numbers and the negative zero are left
  out. Every arithmetic result is the exact result rounded to the nearest double, ties
  to the even mantissa.
\<close>

datatype pyfloat = Finite rat | Infinity | NaN

definition floor_log2 :: "rat \<Rightarrow> int" where
  \<comment> \<open>the integer \<open>k\<close> with \<open>2^k \<le> q < 2^(k+1)\<close>, for \<open>q > 0\<close>\<close>
  "floor_log2 q =
     (let (a, b) = quotient_of q;
          k = bitlen a - bitlen b
      in if 2 powi k \<le> q then k else k - 1)"

definition round_half_even :: "rat \<Rightarrow> int" where
  "round_half_even x =
     (let f = \<lfloor>x\<rfloor>; d = x - of_int f in
      if d < 1 / 2 then f else if 1 / 2 < d then f + 1 else if even f then f else f + 1)"

definition double_of_rat :: "rat \<Rightarrow> pyfloat" where
  \<comment> \<open>the double nearest to \<open>q \<ge> 0\<close>: 53 significant bits, the least exponent -1074 (where
      the subnormal numbers live), overflow to infinity\<close>
  "double_of_rat q =
     (if q = 0 then Finite 0
      else
        let e = max (floor_log2 q - 52) (- 1074);
            m = round_half_even (q / 2 powi e);
            r = of_int m * 2 powi e
        in if 2 ^ 1024 \<le> r then Infinity else Finite r)"

definition float_of_int :: "nat \<Rightarrow> pyfloat" where
  \<comment> \<open>the conversion of an \<open>int\<close> operand in mixed arithmetic (the OverflowError of an
      \<open>int\<close> beyond the doubles is not modelled: the sums here have six digits)\<close>
  "float_of_int n = double_of_rat (of_nat n)"

definition float_of_Fraction :: "rat \<Rightarrow> pyfloat" where
  \<comment> \<open>\<open>float(Fraction)\<close>, the correctly rounded quotient numerator / denominator\<close>
  "float_of_Fraction q = double_of_rat q"

fun float_add :: "pyfloat \<Rightarrow> pyfloat \<Rightarrow> pyfloat" where
  "float_add (Finite a) (Finite b) = double_of_rat (a + b)"
| "float_add NaN _ = NaN"
| "float_add _ NaN = NaN"
| "float_add _ _ = Infinity"

fun float_sub :: "pyfloat \<Rightarrow> pyfloat \<Rightarrow> pyfloat" where
  \<comment> \<open>only used with the second operand no larger than the first\<close>
  "float_sub (Finite a) (Finite b) = double_of_rat (a - b)"
| "float_sub Infinity (Finite b) = Infinity"
| "float_sub _ _ = NaN"

fun float_mul :: "pyfloat \<Rightarrow> pyfloat \<Rightarrow> pyfloat" where
  "float_mul (Finite a) (Finite b) = double_of_rat (a * b)"
| "float_mul NaN _ = NaN"
| "float_mul _ NaN = NaN"
| "float_mul Infinity (Finite b) = (if b = 0 then NaN else Infinity)"
| "float_mul (Finite a) Infinity = (if a = 0 then NaN else Infinity)"
| "float_mul Infinity Infinity = Infinity"

fun float_div_int :: "pyfloat \<Rightarrow> nat \<Rightarrow> pyfloat" where
  \<comment> \<open>division by a positive integer constant\<close>
  "float_div_int (Finite a) w = double_of_rat (a / of_nat w)"
| "float_div_int Infinity w = Infinity"
| "float_div_int NaN w = NaN"

fun float_mod :: "pyfloat \<Rightarrow> nat \<Rightarrow> pyfloat" where
  \<comment> \<open>\<open>x % w\<close> for a float \<open>x\<close> and a positive integer constant \<open>w\<close>: C's \<open>fmod\<close>, which is
      exact; the remainder of infinity is not a number\<close>
  "float_mod (Finite x) w = Finite (x - of_nat w * of_int \<lfloor>x / of_nat w\<rfloor>)"
| "float_mod _ w = NaN"

fun float_snap :: "pyfloat \<Rightarrow> pyfloat" where
  \<comment> \<open>the last step of the floor division: the floor of the quotient, moved up by one
      when the quotient lies more than a half above it\<close>
  "float_snap (Finite d) =
     (if d = 0 then Finite 0
      else if 1 / 2 < d - of_int \<lfloor>d\<rfloor> then double_of_rat (of_int \<lfloor>d\<rfloor> + 1)
      else Finite (of_int \<lfloor>d\<rfloor>))"
| "float_snap v = v"

definition float_floordiv :: "pyfloat \<Rightarrow> nat \<Rightarrow> pyfloat" where
  \<comment> \<open>\<open>x // w\<close> as CPython computes it: \<open>mod = fmod(x, w)\<close>, \<open>div = (x - mod) / w\<close>, then
      the quotient snapped to an integer\<close>
  "float_floordiv x w = float_snap (float_div_int (float_sub x (float_mod x w)) w)"

subsection \<open>Reading numbers\<close>

fun digitpart :: "string \<Rightarrow> string \<times> string" where
  \<comment> \<open>the longest leading run of digits, single underscores between two digits allowed
      and dropped (the digits, the rest)\<close>
  "digitpart [] = ([], [])"
| "digitpart [c] = (if is_digit c then ([c], []) else ([], [c]))"
| "digitpart (c # u # cs) =
     (if is_digit c then
        (if u = CHR ''_'' \<and> cs \<noteq> [] \<and> is_digit (hd cs)
         then (c # fst (digitpart cs), snd (digitpart cs))
         else (c # fst (digitpart (u # cs)), snd (digitpart (u # cs))))
      else ([], c # u # cs))"

definition py_int :: "string \<Rightarrow> error + nat" where
  \<comment> \<open>\<open>int(s)\<close> for an unsigned decimal spelling. Python also reads a sign and blanks
      around the number; neither occurs in text cut from a timecode or from a corrected
      one, and they are outside this model.\<close>
  "py_int s =
     (let (ds, r) = digitpart s in
      if ds = [] \<or> r \<noteq> [] then Inl ValueError else Inr (int_of_digits ds))"

definition exponent_part :: "string \<Rightarrow> (int \<times> string) option" where
  \<comment> \<open>an optional exponent \<open>e\<close> or \<open>E\<close>, optional sign, digits: its value and the rest;
      \<open>None\<close> when the letter is there and the digits are not\<close>
  "exponent_part s =
     (if s \<noteq> [] \<and> (hd s = CHR ''e'' \<or> hd s = CHR ''E'') then
        (let t = tl s;
             neg = (t \<noteq> [] \<and> hd t = CHR ''-'');
             u = (if t \<noteq> [] \<and> (hd t = CHR ''-'' \<or> hd t = CHR ''+'') then tl t else t);
             (ds, r) = digitpart u
         in if ds = [] then None
            else Some (if neg then - int (int_of_digits ds) else int (int_of_digits ds), r))
      else Some (0, s))"

definition py_float :: "string \<Rightarrow> error + pyfloat" where
  \<comment> \<open>\<open>float(s)\<close> for an unsigned decimal spelling: digits, an optional point and
      fraction, an optional exponent; the value is rounded correctly. A sign, blanks
      around the number and the words \<open>inf\<close> and \<open>nan\<close>, which Python reads too, are outside
      this model: the text after the second colon of a match starts and ends with a digit.\<close>
  "py_float s =
     (let (ip, r1) = digitpart s;
          (fp, r2) = (if r1 \<noteq> [] \<and> hd r1 = CHR ''.'' then digitpart (tl r1) else ([], r1))
      in if ip = [] \<and> fp = [] then Inl ValueError
         else (case exponent_part r2 of
                 None \<Rightarrow> Inl ValueError
               | Some (ex, r3) \<Rightarrow>
                   if r3 \<noteq> [] then Inl ValueError
                   else Inr (double_of_rat
                          (of_nat (int_of_digits (ip @ fp)) * 10 powi (ex - int (length fp))))))"

subsection \<open>Writing numbers\<close>

definition zfill :: "nat \<Rightarrow> string \<Rightarrow> string" where
  \<comment> \<open>zero padding on the left up to a least width\<close>
  "zfill w s = replicate (w - length s) (CHR ''0'') @ s"

definition format_02_0f :: "pyfloat \<Rightarrow> string" where
  \<comment> \<open>the format \<open>{:02.0f}\<close>: no fractional digit, at least two characters\<close>
  "format_02_0f v =
     (case v of
        Finite x \<Rightarrow> zfill 2 (str_nat (nat (round_half_even x)))
      | Infinity \<Rightarrow> ''inf''
      | NaN \<Rightarrow> ''nan'')"

definition format_02_9f :: "pyfloat \<Rightarrow> string" where
  \<comment> \<open>the format \<open>{:02.9f}\<close>: nine fractional digits; the least width 2 counts the whole
      field, point and fraction included\<close>
  "format_02_9f v =
     (case v of
        Finite x \<Rightarrow>
          (let n = nat (round_half_even (x * 10 ^ 9)) in
           zfill 2 (str_nat (n div 10 ^ 9) @ ''.'' @ zfill 9 (str_nat (n mod 10 ^ 9))))
      | Infinity \<Rightarrow> ''inf''
      | NaN \<Rightarrow> ''nan'')"

section \<open>Timecode Corrector\<close>

definition adjust_timestamp_by :: "string \<Rightarrow> string \<Rightarrow> error + string" where
  \<comment> \<open>\<open>adjust_timestamp\<close> with the module constant it reads as a parameter\<close>
  "adjust_timestamp_by factor old_timestamp =
     (case py_int (take 2 old_timestamp) of
        Inl e \<Rightarrow> Inl e
      | Inr hrs \<Rightarrow>
     (case py_int (take 2 (drop 3 old_timestamp)) of
        Inl e \<Rightarrow> Inl e
      | Inr mins \<Rightarrow>
     (case py_float (drop 6 old_timestamp) of
        Inl e \<Rightarrow> Inl e
      | Inr secs \<Rightarrow>
     (case Fraction factor of
        Inl e \<Rightarrow> Inl e
      | Inr f \<Rightarrow>
          (let old_total_secs = float_add (float_of_int (3600 * hrs + 60 * mins)) secs;
               new_total_secs = float_mul (float_of_Fraction f) old_total_secs
           in Inr (format_02_0f (float_floordiv new_total_secs 3600) @ '':'' @
                   format_02_0f (float_floordiv (float_mod new_total_secs 3600) 60) @ '':'' @
                   format_02_9f (float_mod new_total_secs 60)))))))"

definition adjust_timestamp :: "string \<Rightarrow> error + string" where
  "adjust_timestamp old_timestamp = adjust_timestamp_by CORRECTION_FACTOR old_timestamp"

section \<open>External tools\<close>

text \<open>
  \<open>subprocess.run\<close> is modelled by a function from the command line and the file system
  to the completed process and the file system the tool leaves. The world records the
  files and every command run, oldest first. The four tool paths are those found by
  \<open>check_prereqs\<close>.
\<close>

type_synonym command = "string list"

type_synonym filesystem = "string \<rightharpoonup> string"

record completed_process =
  returncode :: int
  stdout :: string

type_synonym system = "command \<Rightarrow> filesystem \<Rightarrow> completed_process \<times> filesystem"

record world =
  files :: filesystem
  invoked :: "command list"

record tools =
  ffmpeg :: string
  mkvextract :: string
  mkvinfo :: string
  mkvmerge :: string

definition subprocess_run :: "system \<Rightarrow> command \<Rightarrow> world \<Rightarrow> completed_process \<times> world" where
  "subprocess_run sys cmd w =
     (let (cp, fs) = sys cmd (files w) in (cp, \<lparr>files = fs, invoked = invoked w @ [cmd]\<rparr>))"

section \<open>Text-Timecode Rewriter\<close>

definition match_timecode :: "string \<Rightarrow> (string \<times> string) option" where
  \<comment> \<open>the pattern \<open>\d{2}:\d{2}:\d{2}.\d+\<close> tried at the start of the text: the match and
      the text after it. The point of the pattern is not escaped: it stands for any
      character but the line feed. The greedy \<open>\d+\<close> ends the pattern, so it takes the whole
      run of digits.\<close>
  "match_timecode s =
     (if 10 \<le> length s \<and> is_digit (s ! 0) \<and> is_digit (s ! 1) \<and> s ! 2 = CHR '':'' \<and>
         is_digit (s ! 3) \<and> is_digit (s ! 4) \<and> s ! 5 = CHR '':'' \<and>
         is_digit (s ! 6) \<and> is_digit (s ! 7) \<and> s ! 8 \<noteq> CHR 0x0A \<and> is_digit (s ! 9)
      then Some (take 9 s @ takeWhile is_digit (drop 9 s), dropWhile is_digit (drop 9 s))
      else None)"

function re_sub :: "(string \<Rightarrow> error + string) \<Rightarrow> string \<Rightarrow> error + string" where
  \<comment> \<open>\<open>re.sub(pattern, repl, line)\<close> with a function for \<open>repl\<close>: the matches are found from
      left to right without overlap, each is handed to \<open>repl\<close>, whose exception ends the
      substitution; the text between the matches is copied\<close>
  "re_sub repl [] = Inr []"
| "re_sub repl (c # cs) =
     (case match_timecode (c # cs) of
        Some (m, rest) \<Rightarrow>
          (case repl m of
             Inl e \<Rightarrow> Inl e
           | Inr new \<Rightarrow> (case re_sub repl rest of Inl e \<Rightarrow> Inl e | Inr out \<Rightarrow> Inr (new @ out)))
      | None \<Rightarrow> (case re_sub repl cs of Inl e \<Rightarrow> Inl e | Inr out \<Rightarrow> Inr (c # out)))"
  by pat_completeness auto
termination
proof (relation "measure (\<lambda>(repl, s). length s)")
  show "wf (measure (\<lambda>(repl, s). length s))"
    by simp
next
  fix repl :: "string \<Rightarrow> error + string" and c cs x2 m rest new
  assume "match_timecode (c # cs) = Some x2" and "(m, rest) = x2"
  then have "rest = dropWhile is_digit (drop 9 (c # cs))"
    by (auto simp: match_timecode_def split: if_splits)
  then have "length rest \<le> length cs"
    using length_dropWhile_le [of is_digit "drop 8 cs"] by simp
  then show "((repl, rest), (repl, c # cs)) \<in> measure (\<lambda>(repl, s). length s)"
    by simp
next
  fix repl :: "string \<Rightarrow> error + string" and c cs
  show "((repl, cs), (repl, c # cs)) \<in> measure (\<lambda>(repl, s). length s)"
    by simp
qed

fun universal_newlines :: "string \<Rightarrow> string" where
  \<comment> \<open>what reading a file opened in text mode with the default \<open>newline\<close> does: CR LF and
      a lone CR both arrive as LF\<close>
  "universal_newlines [] = []"
| "universal_newlines (c # cs) =
     (if c = CHR 0x0D then
        CHR 0x0A # universal_newlines (if cs \<noteq> [] \<and> hd cs = CHR 0x0A then tl cs else cs)
      else c # universal_newlines cs)"

fun readlines_from :: "string \<Rightarrow> string \<Rightarrow> string list" where
  \<comment> \<open>the lines a text file yields when iterated, each with its line feed\<close>
  "readlines_from cur [] = (if cur = [] then [] else [cur])"
| "readlines_from cur (c # cs) =
     (if c = CHR 0x0A then (cur @ [c]) # readlines_from [] cs
      else readlines_from (cur @ [c]) cs)"

definition write_text :: "string \<Rightarrow> string \<Rightarrow> string" where
  \<comment> \<open>what writing to a file opened in text mode stores: each LF becomes \<open>os.linesep\<close>\<close>
  "write_text linesep s = concat (map (\<lambda>c. if c = CHR 0x0A then linesep else [c]) s)"

fun edit_lines :: "string list \<Rightarrow> string \<Rightarrow> (error + unit) \<times> string" where
  \<comment> \<open>the loop of \<open>edit_timecodes\<close> with the text written so far; an exception leaves the
      lines before it written\<close>
  "edit_lines [] written = (Inr (), written)"
| "edit_lines (line # ls) written =
     (case re_sub adjust_timestamp line of
        Inl e \<Rightarrow> (Inl e, written)
      | Inr fixed_line \<Rightarrow> edit_lines ls (written @ fixed_line))"

definition edit_timecodes ::
  "string \<Rightarrow> string \<Rightarrow> string \<Rightarrow> filesystem \<Rightarrow> (error + unit) \<times> filesystem" where
  \<comment> \<open>\<open>linesep\<close> is \<open>os.linesep\<close>. Opening the destination empties it before the first line
      is read, which matters when both paths are the same.\<close>
  "edit_timecodes linesep infile outfile fs =
     (case fs infile of
        None \<Rightarrow> (Inl FileNotFoundError, fs)
      | Some content \<Rightarrow>
          (let source = (if outfile = infile then [] else content);
               (r, written) = edit_lines (readlines_from [] (universal_newlines source)) []
           in (r, fs(outfile \<mapsto> write_text linesep written))))"

section \<open>Track Classifier\<close>

fun re_search_track_id :: "string \<Rightarrow> string option" where
  \<comment> \<open>\<open>re.search(r"()\d+(?=:)", line)\<close>: \<open>group(0)\<close> of the leftmost match, or \<open>None\<close>. At a
      digit the greedy \<open>\d+\<close> takes the whole run, and a shorter run is followed by a digit,
      never by the colon.\<close>
  "re_search_track_id [] = None"
| "re_search_track_id (c # cs) =
     (if is_digit c \<and> dropWhile is_digit cs \<noteq> [] \<and> hd (dropWhile is_digit cs) = CHR '':''
      then Some (c # takeWhile is_digit cs)
      else re_search_track_id cs)"

fun sync_loop :: "string list \<Rightarrow> string list \<Rightarrow> error + string list" where
  \<comment> \<open>the \<open>for line in stdout.splitlines()\<close> loop of \<open>get_sync_flags\<close>; \<open>None.group(0)\<close>
      raises AttributeError\<close>
  "sync_loop sync_args [] = Inr sync_args"
| "sync_loop sync_args (line # ls) =
     (if py_in (casefold ''Track ID'') (casefold line) then
        if \<not> py_in (casefold ''audio'') (casefold line) then
          (case re_search_track_id line of
             None \<Rightarrow> Inl AttributeError
           | Some track_id \<Rightarrow>
               sync_loop (sync_args @ [''--sync'', track_id @ '':0,'' @ CORRECTION_FACTOR]) ls)
        else sync_loop sync_args ls
      else sync_loop sync_args ls)"

definition get_sync_flags ::
  "system \<Rightarrow> tools \<Rightarrow> string \<Rightarrow> world \<Rightarrow> (error + string list) \<times> world" where
  "get_sync_flags sys t infile w =
     (let cmd = [mkvmerge t, ''-i'', infile];
          (cp, w1) = subprocess_run sys cmd w
      in (sync_loop [] (splitlines (stdout cp)), w1))"

section \<open>Audio Resample Orchestrator\<close>

fun re_search_number :: "string \<Rightarrow> string option" where
  \<comment> \<open>\<open>re.search(r"\d+\.?\d*", line)\<close>: the leftmost digit starts the match\<close>
  "re_search_number [] = None"
| "re_search_number (c # cs) =
     (if is_digit c then
        (let r = dropWhile is_digit cs in
         Some (c # takeWhile is_digit cs @
               (if r \<noteq> [] \<and> hd r = CHR ''.'' then CHR ''.'' # takeWhile is_digit (tl r) else [])))
      else re_search_number cs)"

fun sample_rate_loop :: "string list \<Rightarrow> error + string option" where
  \<comment> \<open>the loop of \<open>get_audio_sample_rate\<close>; falling off the end returns \<open>None\<close>\<close>
  "sample_rate_loop [] = Inr None"
| "sample_rate_loop (line # ls) =
     (if py_in (casefold ''Sampling frequency'') (casefold line) then
        (case re_search_number line of
           None \<Rightarrow> Inl AttributeError
         | Some m \<Rightarrow> Inr (Some m))
      else sample_rate_loop ls)"

definition get_audio_sample_rate ::
  "system \<Rightarrow> tools \<Rightarrow> string \<Rightarrow> world \<Rightarrow> (error + string option) \<times> world" where
  "get_audio_sample_rate sys t file w =
     (let cmd = [mkvinfo t, file];
          (cp, w1) = subprocess_run sys cmd w
      in (sample_rate_loop (splitlines (stdout cp)), w1))"

definition str_optional :: "string option \<Rightarrow> string" where
  \<comment> \<open>how an f-string renders the sample rate: the text itself, or \<open>None\<close>\<close>
  "str_optional v = (case v of None \<Rightarrow> ''None'' | Some s \<Rightarrow> s)"

definition fix_audio_cmd :: "tools \<Rightarrow> string \<Rightarrow> string \<Rightarrow> string option \<Rightarrow> rat \<Rightarrow> command" where
  "fix_audio_cmd t infile outfile sample_rate audio_factor =
     [ffmpeg t, ''-y'', ''-i'', infile, ''-map'', ''0'', ''-filter:a'',
      ''asetrate='' @ str_optional sample_rate @ ''*'' @ str_Fraction audio_factor,
      ''-c:v'', ''copy'', ''-c:s'', ''copy'', ''-max_interleave_delta'', ''0'', outfile]"

definition fix_audio ::
  "system \<Rightarrow> tools \<Rightarrow> string \<Rightarrow> string \<Rightarrow> world \<Rightarrow> (error + unit) \<times> world" where
  "fix_audio sys t infile outfile w =
     (case Fraction CORRECTION_FACTOR of
        Inl e \<Rightarrow> (Inl e, w)
      | Inr f \<Rightarrow>
          (let audio_factor = 1 / f;
               (r, w1) = get_audio_sample_rate sys t infile w
           in case r of
                Inl e \<Rightarrow> (Inl e, w1)
              | Inr sample_rate \<Rightarrow>
                  (let (cp, w2) = subprocess_run sys
                         (fix_audio_cmd t infile outfile sample_rate audio_factor) w1
                   in (Inr (), w2))))"

section \<open>Synchronization Plan Builder and Pipeline Orchestrator\<close>

datatype pyseq = Str string | Lst "string list"

fun list_extend :: "string list \<Rightarrow> pyseq \<Rightarrow> string list" where
  \<comment> \<open>\<open>list.extend\<close>: a list gives its elements, a string gives its characters one by one\<close>
  "list_extend xs (Lst ys) = xs @ ys"
| "list_extend xs (Str s) = xs @ map (\<lambda>c. [c]) s"

definition fix_chapters ::
  "system \<Rightarrow> tools \<Rightarrow> string \<Rightarrow> string \<Rightarrow> string \<Rightarrow> world \<Rightarrow> (error + pyseq) \<times> world" where
  "fix_chapters sys t linesep infile tmpdir w =
     (let cmd = [mkvmerge t, ''-i'', infile];
          (cp, w1) = subprocess_run sys cmd w
      in if \<not> py_in (casefold ''Chapters'') (casefold (stdout cp)) then (Inr (Str []), w1)
         else
           (let old_chapter_file = tmpdir @ ''/hello-old-chap.xml'';
                new_chapter_file = tmpdir @ ''/hello-new-chap.xml'';
                (cp2, w2) = subprocess_run sys
                              [mkvextract t, infile, ''chapters'', old_chapter_file] w1;
                (r, fs) = edit_timecodes linesep old_chapter_file new_chapter_file (files w2)
            in case r of
                 Inl e \<Rightarrow> (Inl e, w2\<lparr>files := fs\<rparr>)
               | Inr u \<Rightarrow> (Inr (Lst [''--chapters'', new_chapter_file]), w2\<lparr>files := fs\<rparr>)))"

definition remux_cmd :: "tools \<Rightarrow> string \<Rightarrow> string list \<Rightarrow> pyseq \<Rightarrow> string \<Rightarrow> command" where
  \<comment> \<open>the \<open>mkvmerge\<close> command line \<open>main\<close> builds\<close>
  "remux_cmd t tmpfile sync_args chapter_args infile =
     list_extend (list_extend [mkvmerge t, ''--output'', tmpfile] (Lst sync_args) @ [''--no-chapters''])
       chapter_args @ [infile]"

definition main ::
  "system \<Rightarrow> tools \<Rightarrow> string \<Rightarrow> string \<Rightarrow> string \<Rightarrow> string \<Rightarrow> world \<Rightarrow> (error + unit) \<times> world" where
  \<comment> \<open>the body of the \<open>with\<close> block of \<open>main\<close>, for the paths already validated and the
      temporary directory already made\<close>
  "main sys t linesep infile outfile tmpdir w =
     (let tmpfile = tmpdir @ ''/temp.mkv'';
          (r1, w1) = fix_chapters sys t linesep infile tmpdir w
      in case r1 of
           Inl e \<Rightarrow> (Inl e, w1)
         | Inr chapter_args \<Rightarrow>
             (let (r2, w2) = get_sync_flags sys t infile w1
              in case r2 of
                   Inl e \<Rightarrow> (Inl e, w2)
                 | Inr sync_args \<Rightarrow>
                     (let (cp, w3) = subprocess_run sys
                            (remux_cmd t tmpfile sync_args chapter_args infile) w2
                      in fix_audio sys t tmpfile outfile w3)))"

section \<open>Notions the properties are stated with\<close>

definition is_track_line :: "string \<Rightarrow> bool" where
  \<comment> \<open>the line contains \<open>Track ID\<close>, whatever the case of its letters\<close>
  "is_track_line line = py_in ''track id'' (casefold line)"

definition is_audio_line :: "string \<Rightarrow> bool" where
  \<comment> \<open>the line contains \<open>audio\<close>, whatever the case of its letters\<close>
  "is_audio_line line = py_in ''audio'' (casefold line)"

definition sync_directive :: "string \<Rightarrow> string list" where
  \<comment> \<open>the directive of a track line: the first run of digits with a colon right after it
      is the track ID\<close>
  "sync_directive line = [''--sync'', the (re_search_track_id line) @ '':0,25/24'']"

definition inspector_report :: "system \<Rightarrow> tools \<Rightarrow> string \<Rightarrow> world \<Rightarrow> string" where
  \<comment> \<open>what \<open>mkvmerge -i\<close> prints for the input file\<close>
  "inspector_report sys t infile w = stdout (fst (sys [mkvmerge t, ''-i'', infile] (files w)))"

definition info_report :: "system \<Rightarrow> tools \<Rightarrow> string \<Rightarrow> world \<Rightarrow> string" where
  \<comment> \<open>what \<open>mkvinfo\<close> prints for a file\<close>
  "info_report sys t file w = stdout (fst (sys [mkvinfo t, file] (files w)))"

definition has_sampling_frequency :: "string \<Rightarrow> bool" where
  "has_sampling_frequency line = py_in ''sampling frequency'' (casefold line)"

subsection \<open>Concrete inputs\<close>

definition example_tools :: tools where
  "example_tools = \<lparr>ffmpeg = ''/usr/bin/ffmpeg'', mkvextract = ''/usr/bin/mkvextract'',
     mkvinfo = ''/usr/bin/mkvinfo'', mkvmerge = ''/usr/bin/mkvmerge''\<rparr>"

definition example_report :: string where
  "example_report =
     ''File movie.mkv: container: Matroska'' @ [CHR 0x0A] @
     ''Track ID 0: video (MPEG-4p10/AVC/H.264)'' @ [CHR 0x0A] @
     ''Track ID 1: audio (AC-3)'' @ [CHR 0x0A] @
     ''Track ID 2: subtitles (SubRip/SRT)'' @ [CHR 0x0A] @
     ''Chapters: 5 entries'' @ [CHR 0x0A]"

definition example_info :: string where
  "example_info =
     ''| + Track'' @ [CHR 0x0A] @
     ''|  + Track type: audio'' @ [CHR 0x0A] @
     ''|   + Sampling frequency: 48000'' @ [CHR 0x0A] @
     ''|   + Channels: 6'' @ [CHR 0x0A]"

definition example_system :: system where
  \<comment> \<open>an inspector that prints the example reports and touches no file\<close>
  "example_system cmd fs =
     (\<lparr>returncode = 0,
       stdout = (if hd cmd = ''/usr/bin/mkvmerge'' then example_report
                 else if hd cmd = ''/usr/bin/mkvinfo'' then example_info else [])\<rparr>, fs)"

definition silent_system :: system where
  \<comment> \<open>tools that print nothing and touch no file\<close>
  "silent_system cmd fs = (\<lparr>returncode = 0, stdout = []\<rparr>, fs)"

definition empty_world :: world where
  "empty_world = \<lparr>files = Map.empty, invoked = []\<rparr>"



definition plain_report :: string where
  \<comment> \<open>a report of a file with no chapters\<close>
  "plain_report =
     ''Track ID 0: video (MPEG-4p10/AVC/H.264)'' @ [CHR 0x0A] @
     ''Track ID 1: audio (AC-3)'' @ [CHR 0x0A]"

definition plain_system :: system where
  \<comment> \<open>every tool prints the plain report and touches no file\<close>
  "plain_system cmd fs = (\<lparr>returncode = 0, stdout = plain_report\<rparr>, fs)"

subsection \<open>Timecodes as texts\<close>

definition all_digits :: "string \<Rightarrow> bool" where
  "all_digits s = (s \<noteq> [] \<and> list_all is_digit s)"

definition hours_field :: "string \<Rightarrow> string" where
  \<comment> \<open>the text before the first colon\<close>
  "hours_field s = takeWhile (\<lambda>c. c \<noteq> CHR '':'') s"

definition minutes_field :: "string \<Rightarrow> string" where
  \<comment> \<open>the text between the first colon and the second\<close>
  "minutes_field s = takeWhile (\<lambda>c. c \<noteq> CHR '':'') (drop (length (hours_field s) + 1) s)"

definition seconds_field :: "string \<Rightarrow> string" where
  \<comment> \<open>the text after the second colon\<close>
  "seconds_field s = drop (length (hours_field s) + length (minutes_field s) + 2) s"

definition int_part :: "string \<Rightarrow> string" where
  "int_part f = takeWhile (\<lambda>c. c \<noteq> CHR ''.'') f"

definition frac_part :: "string \<Rightarrow> string" where
  "frac_part f = drop (length (int_part f) + 1) f"

definition well_formed :: "string \<Rightarrow> bool" where
  \<comment> \<open>digits, a colon, digits, a colon, digits, a point, digits\<close>
  "well_formed s =
     (s = hours_field s @ '':'' @ minutes_field s @ '':'' @
          int_part (seconds_field s) @ ''.'' @ frac_part (seconds_field s) \<and>
      all_digits (hours_field s) \<and> all_digits (minutes_field s) \<and>
      all_digits (int_part (seconds_field s)) \<and> all_digits (frac_part (seconds_field s)))"

definition timecode_shape :: "string \<Rightarrow> bool" where
  \<comment> \<open>the shape \<open>DD:DD:DD.D+\<close>, the point being a point\<close>
  "timecode_shape s =
     (well_formed s \<and> length (hours_field s) = 2 \<and> length (minutes_field s) = 2 \<and>
      length (int_part (seconds_field s)) = 2)"

definition decimal_value :: "string \<Rightarrow> rat" where
  \<comment> \<open>the number a text \<open>digits.digits\<close> denotes\<close>
  "decimal_value f =
     of_nat (int_of_digits (int_part f)) +
     of_nat (int_of_digits (frac_part f)) / 10 ^ length (frac_part f)"

definition total_seconds :: "string \<Rightarrow> rat" where
  \<comment> \<open>the time a timecode text denotes, in seconds\<close>
  "total_seconds s =
     3600 * of_nat (int_of_digits (hours_field s)) +
     60 * of_nat (int_of_digits (minutes_field s)) +
     decimal_value (seconds_field s)"

definition timecode_text :: "rat \<Rightarrow> string" where
  \<comment> \<open>the text the three formats of \<open>adjust_timestamp\<close> give for a finite, non-negative
      number of seconds below \<open>2^53\<close>: whole hours, whole minutes of the rest, and the
      seconds of the rest rounded to nine decimals\<close>
  "timecode_text p =
     zfill 2 (str_nat (nat \<lfloor>p / 3600\<rfloor>)) @ '':'' @
     zfill 2 (str_nat (nat \<lfloor>(p - 3600 * of_int \<lfloor>p / 3600\<rfloor>) / 60\<rfloor>)) @ '':'' @
     format_02_9f (Finite (p - 60 * of_int \<lfloor>p / 60\<rfloor>))"

definition adjust_timestamp_exact :: "string \<Rightarrow> string" where
  \<comment> \<open>the corrector as the specification words it: the total of the three fields times
      25/24 in exact rational arithmetic, then split and formatted as the code does\<close>
  "adjust_timestamp_exact s = timecode_text (25 / 24 * total_seconds s)"

section \<open>Properties of the Track Classifier and the sync directives\<close>

lemma casefold_needles:
  "casefold ''Track ID'' = ''track id''"
  "casefold ''audio'' = ''audio''"
  "casefold ''Chapters'' = ''chapters''"
  "casefold ''Sampling frequency'' = ''sampling frequency''"
  by (simp_all add: casefold_def casefold_char_def char_of_def bit_Suc_0_iff)

lemma fst_subprocess_run: "fst (subprocess_run sys cmd w) = fst (sys cmd (files w))"
  by (simp add: subprocess_run_def split: prod.splits)

lemma snd_subprocess_run:
  "snd (subprocess_run sys cmd w) =
     \<lparr>files = snd (sys cmd (files w)), invoked = invoked w @ [cmd]\<rparr>"
  by (simp add: subprocess_run_def split: prod.splits)

lemma sync_loop_step:
  "sync_loop acc (l # ls) =
     (if is_track_line l \<and> \<not> is_audio_line l then
        (if re_search_track_id l = None then Inl AttributeError
         else sync_loop (acc @ sync_directive l) ls)
      else sync_loop acc ls)"
  by (auto simp: is_track_line_def is_audio_line_def sync_directive_def casefold_needles
        CORRECTION_FACTOR_def)

lemma sync_loop_eq:
  "sync_loop acc ls =
     (if \<forall>l \<in> set ls. is_track_line l \<and> \<not> is_audio_line l \<longrightarrow> re_search_track_id l \<noteq> None
      then Inr (acc @ concat (map sync_directive
                  (filter (\<lambda>l. is_track_line l \<and> \<not> is_audio_line l) ls)))
      else Inl AttributeError)"
proof (induction ls arbitrary: acc)
  case Nil
  show ?case by simp
next
  case (Cons l ls)
  show ?case
    unfolding sync_loop_step by (auto simp: Cons.IH)
qed

lemma get_sync_flags_eq:
  "get_sync_flags sys t infile w =
     (sync_loop [] (splitlines (inspector_report sys t infile w)),
      \<lparr>files = snd (sys [mkvmerge t, ''-i'', infile] (files w)),
       invoked = invoked w @ [[mkvmerge t, ''-i'', infile]]\<rparr>)"
  by (simp add: get_sync_flags_def inspector_report_def Let_def split_beta
      fst_subprocess_run snd_subprocess_run)



lemma example_report_classes:
  "is_track_line ''File movie.mkv: container: Matroska'' = False"
  "is_track_line ''Track ID 0: video (MPEG-4p10/AVC/H.264)'' = True"
  "is_audio_line ''Track ID 0: video (MPEG-4p10/AVC/H.264)'' = False"
  "is_track_line ''Track ID 1: audio (AC-3)'' = True"
  "is_audio_line ''Track ID 1: audio (AC-3)'' = True"
  "is_track_line ''Track ID 2: subtitles (SubRip/SRT)'' = True"
  "is_audio_line ''Track ID 2: subtitles (SubRip/SRT)'' = False"
  "is_track_line ''Chapters: 5 entries'' = False"
  by (simp_all add: is_track_line_def is_audio_line_def casefold_def casefold_char_def
      char_of_def bit_Suc_0_iff)

lemma example_report_ids:
  "re_search_track_id ''Track ID 0: video (MPEG-4p10/AVC/H.264)'' = Some ''0''"
  "re_search_track_id ''Track ID 2: subtitles (SubRip/SRT)'' = Some ''2''"
  by (simp_all add: is_digit_def)



section \<open>Properties of the Audio Resample Orchestrator\<close>

lemma Fraction_CORRECTION_FACTOR: "Fraction CORRECTION_FACTOR = Inr (25 / 24)"
  by (simp add: Fraction_def CORRECTION_FACTOR_def is_digit_def int_of_digits_def digit_val_def)

lemma quotient_of_24_25: "quotient_of (24 / 25) = (24, 25)"
  by code_simp

lemma str_Fraction_inverse:
  "str_Fraction (24 / 25) = ''24/25''"
  "str_Fraction (1 / (25 / 24)) = ''24/25''"
  by (simp_all add: str_Fraction_def quotient_of_24_25 str_nat.simps digit_char_def)

lemma sample_rate_loop_step:
  "sample_rate_loop (l # ls) =
     (if has_sampling_frequency l then
        (case re_search_number l of None \<Rightarrow> Inl AttributeError | Some m \<Rightarrow> Inr (Some m))
      else sample_rate_loop ls)"
  by (simp add: has_sampling_frequency_def casefold_needles)

lemma sample_rate_loop_find:
  "sample_rate_loop ls =
     (case find has_sampling_frequency ls of
        None \<Rightarrow> Inr None
      | Some l \<Rightarrow> (case re_search_number l of None \<Rightarrow> Inl AttributeError | Some m \<Rightarrow> Inr (Some m)))"
proof (induction ls)
  case Nil
  show ?case by simp
next
  case (Cons l ls)
  show ?case
    unfolding sample_rate_loop_step by (simp add: Cons.IH)
qed

lemma find_first:
  assumes "\<forall>l \<in> set pre. \<not> P l" and "P x"
  shows "find P (pre @ x # post) = Some x"
  using assms by (induction pre) simp_all

lemma find_none:
  assumes "\<forall>l \<in> set ls. \<not> P l"
  shows "find P ls = None"
  using assms by (induction ls) simp_all

lemma get_audio_sample_rate_eq:
  "get_audio_sample_rate sys t file w =
     (sample_rate_loop (splitlines (info_report sys t file w)),
      \<lparr>files = snd (sys [mkvinfo t, file] (files w)),
       invoked = invoked w @ [[mkvinfo t, file]]\<rparr>)"
  by (simp add: get_audio_sample_rate_def info_report_def Let_def split_beta
      fst_subprocess_run snd_subprocess_run)

lemma fix_audio_eq:
  "fix_audio sys t infile outfile w =
     (case sample_rate_loop (splitlines (info_report sys t infile w)) of
        Inl e \<Rightarrow>
          (Inl e, \<lparr>files = snd (sys [mkvinfo t, infile] (files w)),
                   invoked = invoked w @ [[mkvinfo t, infile]]\<rparr>)
      | Inr sample_rate \<Rightarrow>
          (Inr (),
           \<lparr>files = snd (sys (fix_audio_cmd t infile outfile sample_rate (1 / (25 / 24)))
                           (snd (sys [mkvinfo t, infile] (files w)))),
            invoked = invoked w @ [[mkvinfo t, infile],
                        fix_audio_cmd t infile outfile sample_rate (1 / (25 / 24))]\<rparr>))"
  by (simp add: fix_audio_def Fraction_CORRECTION_FACTOR get_audio_sample_rate_eq Let_def
      subprocess_run_def split_beta split: sum.splits)

text \<open>
  Claim C9. When the first line of the \<open>mkvinfo\<close> report that holds \<open>Sampling frequency\<close>
  (in any case) has \<open>R\<close> as its first number, \<open>fix_audio\<close> returns normally after running
  \<open>mkvinfo\<close> and then the transcoder with exactly these arguments: overwrite, the input,
  \<open>-map 0\<close> (every stream), the audio filter \<open>asetrate=R*24/25\<close> (the rate times the inverse
  of the correction factor), the video and subtitle codecs set to \<open>copy\<close>, the maximum
  interleave delta set to 0, and the output file.
\<close>

theorem fix_audio_invocation:
  assumes "splitlines (info_report sys t infile w) = pre @ line # post"
    and "\<forall>l \<in> set pre. \<not> has_sampling_frequency l"
    and "has_sampling_frequency line"
    and "re_search_number line = Some R"
  shows "fst (fix_audio sys t infile outfile w) = Inr () \<and>
         invoked (snd (fix_audio sys t infile outfile w)) =
           invoked w @
           [[mkvinfo t, infile],
            [ffmpeg t, ''-y'', ''-i'', infile, ''-map'', ''0'', ''-filter:a'',
             ''asetrate='' @ R @ ''*24/25'', ''-c:v'', ''copy'', ''-c:s'', ''copy'',
             ''-max_interleave_delta'', ''0'', outfile]]"
proof -
  have "find has_sampling_frequency (pre @ line # post) = Some line"
    using assms(2,3) by (rule find_first)
  then have "sample_rate_loop (splitlines (info_report sys t infile w)) = Inr (Some R)"
    by (simp add: assms(1,4) sample_rate_loop_find)
  then show ?thesis
    by (simp add: fix_audio_eq fix_audio_cmd_def str_optional_def str_Fraction_inverse)
qed

lemma example_info_lines:
  "splitlines example_info =
     [''| + Track'', ''|  + Track type: audio'', ''|   + Sampling frequency: 48000'',
      ''|   + Channels: 6'']"
  by (simp add: example_info_def splitlines_def is_linebreak_def)

lemma example_info_classes:
  "has_sampling_frequency ''| + Track'' = False"
  "has_sampling_frequency ''|  + Track type: audio'' = False"
  "has_sampling_frequency ''|   + Sampling frequency: 48000'' = True"
  by (simp_all add: has_sampling_frequency_def casefold_def casefold_char_def
      char_of_def bit_Suc_0_iff)

lemma example_info_rate: "re_search_number ''|   + Sampling frequency: 48000'' = Some ''48000''"
  by (simp add: is_digit_def)

lemma example_info_report:
  "info_report example_system example_tools file w = example_info"
  by (simp add: info_report_def example_system_def example_tools_def)

theorem fix_audio_invocation_witness:
  "fst (fix_audio example_system example_tools ''/tmp/x/temp.mkv'' ''out.mkv'' empty_world) = Inr () \<and>
   invoked (snd (fix_audio example_system example_tools ''/tmp/x/temp.mkv'' ''out.mkv'' empty_world)) =
     [[''/usr/bin/mkvinfo'', ''/tmp/x/temp.mkv''],
      [''/usr/bin/ffmpeg'', ''-y'', ''-i'', ''/tmp/x/temp.mkv'', ''-map'', ''0'', ''-filter:a'',
       ''asetrate=48000*24/25'', ''-c:v'', ''copy'', ''-c:s'', ''copy'',
       ''-max_interleave_delta'', ''0'', ''out.mkv'']]"
proof -
  have h1: "splitlines (info_report example_system example_tools ''/tmp/x/temp.mkv'' empty_world) =
      [''| + Track'', ''|  + Track type: audio''] @
      ''|   + Sampling frequency: 48000'' # [''|   + Channels: 6'']"
    by (simp add: example_info_report example_info_lines)
  have h2: "\<forall>l \<in> set [''| + Track'', ''|  + Track type: audio'']. \<not> has_sampling_frequency l"
    by (simp add: example_info_classes)
  have h3: "has_sampling_frequency ''|   + Sampling frequency: 48000''"
    by (simp add: example_info_classes)
  show ?thesis
    using fix_audio_invocation [OF h1 h2 h3 example_info_rate, of "''out.mkv''"]
    by (simp add: example_tools_def empty_world_def)
qed

text \<open>
  Claim C10. When no line of the \<open>mkvinfo\<close> report holds \<open>Sampling frequency\<close> (in any
  case), \<open>get_audio_sample_rate\<close> returns \<open>None\<close>, and \<open>fix_audio\<close> raises nothing: it
  runs the transcoder with the filter \<open>asetrate=None*24/25\<close>.
\<close>

theorem fix_audio_without_sample_rate:
  assumes "\<forall>l \<in> set (splitlines (info_report sys t infile w)). \<not> has_sampling_frequency l"
  shows "fst (get_audio_sample_rate sys t infile w) = Inr None \<and>
         fst (fix_audio sys t infile outfile w) = Inr () \<and>
         invoked (snd (fix_audio sys t infile outfile w)) =
           invoked w @
           [[mkvinfo t, infile],
            [ffmpeg t, ''-y'', ''-i'', infile, ''-map'', ''0'', ''-filter:a'',
             ''asetrate=None*24/25'', ''-c:v'', ''copy'', ''-c:s'', ''copy'',
             ''-max_interleave_delta'', ''0'', outfile]]"
proof -
  have "sample_rate_loop (splitlines (info_report sys t infile w)) = Inr None"
    using find_none [OF assms] by (simp add: sample_rate_loop_find)
  then show ?thesis
    by (simp add: get_audio_sample_rate_eq fix_audio_eq fix_audio_cmd_def str_optional_def
        str_Fraction_inverse)
qed

theorem fix_audio_without_sample_rate_witness:
  "fst (get_audio_sample_rate silent_system example_tools ''/tmp/x/temp.mkv'' empty_world) = Inr None \<and>
   fst (fix_audio silent_system example_tools ''/tmp/x/temp.mkv'' ''out.mkv'' empty_world) = Inr () \<and>
   invoked (snd (fix_audio silent_system example_tools ''/tmp/x/temp.mkv'' ''out.mkv'' empty_world)) =
     [[''/usr/bin/mkvinfo'', ''/tmp/x/temp.mkv''],
      [''/usr/bin/ffmpeg'', ''-y'', ''-i'', ''/tmp/x/temp.mkv'', ''-map'', ''0'', ''-filter:a'',
       ''asetrate=None*24/25'', ''-c:v'', ''copy'', ''-c:s'', ''copy'',
       ''-max_interleave_delta'', ''0'', ''out.mkv'']]"
proof -
  have h: "\<forall>l \<in> set (splitlines
              (info_report silent_system example_tools ''/tmp/x/temp.mkv'' empty_world)).
             \<not> has_sampling_frequency l"
    by (simp add: info_report_def silent_system_def splitlines_def)
  show ?thesis
    using fix_audio_without_sample_rate [OF h, of "''out.mkv''"]
    by (simp add: example_tools_def empty_world_def)
qed

section \<open>Failing tools and unreadable reports\<close>




section \<open>Properties of the chapter handling\<close>

lemma fix_chapters_without_chapters:
  assumes "\<not> py_in ''chapters'' (casefold (inspector_report sys t infile w))"
  shows "fix_chapters sys t linesep infile tmpdir w =
           (Inr (Str []),
            \<lparr>files = snd (sys [mkvmerge t, ''-i'', infile] (files w)),
             invoked = invoked w @ [[mkvmerge t, ''-i'', infile]]\<rparr>)"
  using assms
  by (simp add: fix_chapters_def inspector_report_def casefold_needles Let_def split_beta
      fst_subprocess_run snd_subprocess_run)

lemma set_sync_directives:
  "x \<in> set (concat (map sync_directive ls)) \<Longrightarrow> x \<noteq> ''--chapters''"
proof (induction ls)
  case Nil
  then show ?case by simp
next
  case (Cons l ls)
  have "y @ '':0,25/24'' \<noteq> ''--chapters''" for y :: string
  proof
    assume "y @ '':0,25/24'' = ''--chapters''"
    then have "last (y @ '':0,25/24'') = last ''--chapters''"
      by simp
    then show False by simp
  qed
  with Cons show ?case
    by (auto simp: sync_directive_def)
qed

lemma sync_loop_no_chapters:
  assumes "sync_loop [] ls = Inr sync_args"
  shows "''--chapters'' \<notin> set sync_args"
proof -
  have "sync_args = concat (map sync_directive
          (filter (\<lambda>l. is_track_line l \<and> \<not> is_audio_line l) ls))"
    using assms by (simp add: sync_loop_eq split: if_splits)
  then show ?thesis
    using set_sync_directives by blast
qed

lemma invoked_fix_audio:
  "\<exists>rest. invoked (snd (fix_audio sys t infile outfile w)) = invoked w @ [mkvinfo t, infile] # rest"
  by (simp add: fix_audio_eq split: sum.splits)

text \<open>
  Claim C8. When the inspector report holds no \<open>Chapters\<close> (in any case), \<open>fix_chapters\<close>
  returns the empty string after the inspector call alone: no extractor is run and no
  file is written. When \<open>get_sync_flags\<close> then returns its directives, the third
  command \<open>main\<close> runs is the remux command: the tool, \<open>--output\<close>, the temporary file,
  the directives, \<open>--no-chapters\<close> and the input path, with nothing between the last two.
  No directive is \<open>--chapters\<close>, so the command holds no such argument unless the tool
  path or the input path is spelled that way.
\<close>

theorem no_chapters_no_rewrite:
  assumes "\<not> py_in ''chapters'' (casefold (inspector_report sys t infile w))"
    and "w1 = \<lparr>files = snd (sys [mkvmerge t, ''-i'', infile] (files w)),
               invoked = invoked w @ [[mkvmerge t, ''-i'', infile]]\<rparr>"
    and "fst (get_sync_flags sys t infile w1) = Inr sync_args"
  shows "fix_chapters sys t linesep infile tmpdir w = (Inr (Str []), w1) \<and>
         (\<exists>rest. invoked (snd (main sys t linesep infile outfile tmpdir w)) =
            invoked w @
            [[mkvmerge t, ''-i'', infile], [mkvmerge t, ''-i'', infile],
             [mkvmerge t, ''--output'', tmpdir @ ''/temp.mkv''] @ sync_args @
               [''--no-chapters'', infile]] @ rest) \<and>
         (mkvmerge t \<noteq> ''--chapters'' \<and> infile \<noteq> ''--chapters'' \<longrightarrow>
            ''--chapters'' \<notin> set ([mkvmerge t, ''--output'', tmpdir @ ''/temp.mkv''] @ sync_args @
               [''--no-chapters'', infile]))"
proof -
  have fc: "fix_chapters sys t linesep infile tmpdir w = (Inr (Str []), w1)"
    using fix_chapters_without_chapters [OF assms(1)] assms(2) by simp
  have sl: "sync_loop [] (splitlines (inspector_report sys t infile w1)) = Inr sync_args"
    using assms(3) by (simp add: get_sync_flags_eq)
  have nc: "''--chapters'' \<notin> set sync_args"
    using sl by (rule sync_loop_no_chapters)
  have tmp: "tmpdir @ ''/temp.mkv'' \<noteq> ''--chapters''"
  proof
    assume "tmpdir @ ''/temp.mkv'' = ''--chapters''"
    then have "last (tmpdir @ ''/temp.mkv'') = last ''--chapters''"
      by simp
    then show False by simp
  qed
  obtain rest where r: "invoked (snd (fix_audio sys t (tmpdir @ ''/temp.mkv'') outfile
      (snd (subprocess_run sys (remux_cmd t (tmpdir @ ''/temp.mkv'') sync_args (Str []) infile)
         (snd (get_sync_flags sys t infile w1)))))) =
      invoked (snd (subprocess_run sys (remux_cmd t (tmpdir @ ''/temp.mkv'') sync_args (Str []) infile)
         (snd (get_sync_flags sys t infile w1)))) @ [mkvinfo t, tmpdir @ ''/temp.mkv''] # rest"
    using invoked_fix_audio by blast
  have m: "main sys t linesep infile outfile tmpdir w =
      fix_audio sys t (tmpdir @ ''/temp.mkv'') outfile
        (snd (subprocess_run sys (remux_cmd t (tmpdir @ ''/temp.mkv'') sync_args (Str []) infile)
           (snd (get_sync_flags sys t infile w1))))"
    using assms(3) by (simp add: main_def fc Let_def split_beta)
  have "invoked (snd (main sys t linesep infile outfile tmpdir w)) =
      invoked w @
      [[mkvmerge t, ''-i'', infile], [mkvmerge t, ''-i'', infile],
       [mkvmerge t, ''--output'', tmpdir @ ''/temp.mkv''] @ sync_args @
         [''--no-chapters'', infile]] @ ([mkvinfo t, tmpdir @ ''/temp.mkv''] # rest)"
    unfolding m r
    by (simp add: snd_subprocess_run get_sync_flags_eq remux_cmd_def assms(2))
  then show ?thesis
    using fc nc tmp by auto
qed

lemma plain_report_chapters: "py_in ''chapters'' (casefold plain_report) = False"
  by (simp add: plain_report_def casefold_def casefold_char_def char_of_def bit_Suc_0_iff)

lemma plain_report_lines:
  "splitlines plain_report =
     [''Track ID 0: video (MPEG-4p10/AVC/H.264)'', ''Track ID 1: audio (AC-3)'']"
  by (simp add: plain_report_def splitlines_def is_linebreak_def)

theorem no_chapters_no_rewrite_witness:
  "fix_chapters plain_system example_tools [CHR 0x0A] ''movie.mkv'' ''/tmp/x'' empty_world =
     (Inr (Str []),
      \<lparr>files = Map.empty, invoked = [[''/usr/bin/mkvmerge'', ''-i'', ''movie.mkv'']]\<rparr>) \<and>
   (\<exists>rest. invoked (snd (main plain_system example_tools [CHR 0x0A] ''movie.mkv'' ''out.mkv''
                ''/tmp/x'' empty_world)) =
      [[''/usr/bin/mkvmerge'', ''-i'', ''movie.mkv''], [''/usr/bin/mkvmerge'', ''-i'', ''movie.mkv''],
       [''/usr/bin/mkvmerge'', ''--output'', ''/tmp/x/temp.mkv'', ''--sync'', ''0:0,25/24'',
        ''--no-chapters'', ''movie.mkv'']] @ rest)"
proof -
  have h1: "\<not> py_in ''chapters''
      (casefold (inspector_report plain_system example_tools ''movie.mkv'' empty_world))"
    by (simp add: inspector_report_def plain_system_def plain_report_chapters)
  have h2: "\<lparr>files = Map.empty, invoked = [[''/usr/bin/mkvmerge'', ''-i'', ''movie.mkv'']]\<rparr> =
      \<lparr>files = snd (plain_system [mkvmerge example_tools, ''-i'', ''movie.mkv''] (files empty_world)),
       invoked = invoked empty_world @ [[mkvmerge example_tools, ''-i'', ''movie.mkv'']]\<rparr>"
    by (simp add: plain_system_def example_tools_def empty_world_def)
  have h3: "fst (get_sync_flags plain_system example_tools ''movie.mkv''
      \<lparr>files = Map.empty, invoked = [[''/usr/bin/mkvmerge'', ''-i'', ''movie.mkv'']]\<rparr>) =
      Inr [''--sync'', ''0:0,25/24'']"
    by (simp add: get_sync_flags_eq inspector_report_def plain_system_def plain_report_lines
        sync_loop_eq example_report_classes example_report_ids sync_directive_def is_digit_def)
  show ?thesis
    using no_chapters_no_rewrite [OF h1 h2 h3, of "[CHR 0x0A]" "''/tmp/x''" "''out.mkv''"]
    by (simp add: example_tools_def empty_world_def)
qed

section \<open>Rounding to the nearest double\<close>

lemma bitlen_powi_bounds:
  assumes "0 < a"
  shows "(2::rat) powi (bitlen a - 1) \<le> of_int a" and "of_int a < (2::rat) powi (bitlen a)"
proof -
  have pos: "1 \<le> bitlen a"
    using assms bitlen_eq_zero_iff [of a] bitlen_nonneg [of a] by linarith
  have "(2::int) ^ nat (bitlen a - 1) \<le> a" and "a < 2 ^ nat (bitlen a)"
    using bitlen_bounds [OF assms] by auto
  then have "(of_int ((2::int) ^ nat (bitlen a - 1)) :: rat) \<le> of_int a"
    and "(of_int a :: rat) < of_int (2 ^ nat (bitlen a))"
    by (simp_all only: of_int_le_iff of_int_less_iff)
  then show "(2::rat) powi (bitlen a - 1) \<le> of_int a" and "of_int a < (2::rat) powi (bitlen a)"
    using pos by (simp_all add: power_int_nonneg_exp)
qed

lemma floor_log2_bounds:
  assumes "0 < q"
  shows "2 powi (floor_log2 q) \<le> q" and "q < 2 powi (floor_log2 q + 1)"
proof -
  obtain a b where ab: "quotient_of q = (a, b)"
    by (cases "quotient_of q")
  have b: "0 < b" and q: "q = of_int a / of_int b"
    using ab quotient_of_denom_pos quotient_of_div by auto
  have a: "0 < a"
    using assms q b by (simp add: zero_less_divide_iff)
  define k where "k = bitlen a - bitlen b"
  have bq: "(0::rat) < of_int b"
    using b by simp
  have lo: "2 powi (k - 1) < q"
  proof -
    have "(2::rat) powi (k - 1) * of_int b < 2 powi (k - 1) * 2 powi (bitlen b)"
      using bitlen_powi_bounds(2) [OF b] by (simp add: zero_less_power_int)
    also have "\<dots> = 2 powi (bitlen a - 1)"
      by (simp add: k_def flip: power_int_add)
    also have "\<dots> \<le> of_int a"
      using bitlen_powi_bounds(1) [OF a] .
    finally show ?thesis
      using bq by (simp add: q pos_less_divide_eq)
  qed
  have hi: "q < 2 powi (k + 1)"
  proof -
    have "(of_int a :: rat) < 2 powi (bitlen a)"
      using bitlen_powi_bounds(2) [OF a] .
    also have "\<dots> = 2 powi (k + 1) * 2 powi (bitlen b - 1)"
      by (simp add: k_def flip: power_int_add)
    also have "\<dots> \<le> 2 powi (k + 1) * of_int b"
      using bitlen_powi_bounds(1) [OF b] by (simp add: zero_less_power_int)
    finally show ?thesis
      using bq by (simp add: q pos_divide_less_eq)
  qed
  have fl: "floor_log2 q = (if 2 powi k \<le> q then k else k - 1)"
    by (simp add: floor_log2_def ab k_def)
  show "2 powi (floor_log2 q) \<le> q"
    using lo by (simp add: fl)
  show "q < 2 powi (floor_log2 q + 1)"
    using hi by (auto simp: fl)
qed

lemma floor_log2_unique:
  assumes "2 powi k \<le> q" and "q < 2 powi (k + 1)"
  shows "floor_log2 q = k"
proof -
  have q: "(0::rat) < q"
    using assms(1) zero_less_power_int [of "2::rat" k] by linarith
  have "(2::rat) powi (floor_log2 q) < 2 powi (k + 1)"
    using floor_log2_bounds(1) [OF q] assms(2) by linarith
  then have 1: "floor_log2 q < k + 1"
    using power_int_increasing [of "k + 1" "floor_log2 q" "2::rat"] by fastforce
  have "(2::rat) powi k < 2 powi (floor_log2 q + 1)"
    using floor_log2_bounds(2) [OF q] assms(1) by linarith
  then have 2: "k < floor_log2 q + 1"
    using power_int_increasing [of "floor_log2 q + 1" k "2::rat"] by fastforce
  show ?thesis
    using 1 2 by linarith
qed

lemma round_half_even_bounds:
  "\<bar>of_int (round_half_even x) - x\<bar> \<le> 1 / 2"
proof -
  have "of_int \<lfloor>x\<rfloor> \<le> x" and "x < of_int \<lfloor>x\<rfloor> + 1"
    by linarith+
  then show ?thesis
    by (auto simp: round_half_even_def Let_def)
qed

lemma round_half_even_of_int [simp]: "round_half_even (of_int n) = n"
  by (simp add: round_half_even_def)

lemma round_half_even_eqI:
  assumes "of_int m - 1 / 2 < x" and "x < of_int m + 1 / 2"
  shows "round_half_even x = m"
proof -
  have "\<bar>of_int (round_half_even x) - x\<bar> \<le> 1 / 2"
    by (rule round_half_even_bounds)
  then have "\<bar>(of_int (round_half_even x) :: rat) - of_int m\<bar> < 1"
    using assms by linarith
  then have "\<bar>round_half_even x - m\<bar> < 1"
    by (metis of_int_abs of_int_diff of_int_less_1_iff)
  then show ?thesis
    by linarith
qed

lemma round_half_even_nonneg:
  assumes "0 \<le> x"
  shows "0 \<le> round_half_even x"
  using assms by (auto simp: round_half_even_def Let_def)

lemma round_half_even_mono_int:
  assumes "x \<le> of_int n"
  shows "round_half_even x \<le> n"
proof (cases "x = of_int n")
  case True
  then show ?thesis by simp
next
  case False
  then have "x < of_int n"
    using assms by simp
  then have "\<lfloor>x\<rfloor> < n"
    by (simp add: floor_less_iff)
  moreover have "round_half_even x \<le> \<lfloor>x\<rfloor> + 1"
    by (simp add: round_half_even_def Let_def)
  ultimately show ?thesis
    by linarith
qed

lemma double_of_rat_eval:
  assumes "2 powi k \<le> q" and "q < 2 powi (k + 1)"
    and "e = max (k - 52) (- 1074)"
    and "m = round_half_even (q / 2 powi e)"
    and "of_int m * 2 powi e < (2::rat) ^ 1024"
  shows "double_of_rat q = Finite (of_int m * 2 powi e)"
proof -
  have q: "(0::rat) < q"
    using assms(1) zero_less_power_int [of "2::rat" k] by linarith
  have "floor_log2 q = k"
    using assms(1,2) by (rule floor_log2_unique)
  then show ?thesis
    using q assms(3,4,5) by (simp add: double_of_rat_def Let_def)
qed

lemma double_of_rat_int:
  assumes "0 \<le> n" and "n < 2 ^ 53"
  shows "double_of_rat (of_int n) = Finite (of_int n)"
proof (cases "n = 0")
  case True
  then show ?thesis by (simp add: double_of_rat_def)
next
  case False
  then have n: "0 < n"
    using assms(1) by simp
  define q :: rat where "q = of_int n"
  have q: "0 < q"
    using n by (simp add: q_def)
  define k where "k = floor_log2 q"
  have kb: "2 powi k \<le> q" "q < 2 powi (k + 1)"
    using floor_log2_bounds [OF q] by (simp_all add: k_def)
  have "(of_int n :: rat) < of_int (2 ^ 53)"
    using assms(2) by (simp only: of_int_less_iff)
  then have q53: "q < 2 ^ 53"
    by (simp add: q_def)
  then have "(2::rat) powi k < 2 powi 53"
    using kb(1) by simp
  then have k53: "k < 53"
    using power_int_increasing [of 53 k "2::rat"] by fastforce
  define e where "e = max (k - 52) (- 1074)"
  have e0: "e \<le> 0"
    using k53 by (simp add: e_def)
  have pe: "(2::rat) powi e = 1 / 2 ^ nat (- e)"
    using e0 by (simp add: power_int_def field_simps)
  have div: "q / 2 powi e = of_int (n * 2 ^ nat (- e))"
    by (simp add: pe q_def)
  have m: "round_half_even (q / 2 powi e) = n * 2 ^ nat (- e)"
    unfolding div by (rule round_half_even_of_int)
  have r: "of_int (n * 2 ^ nat (- e)) * (2::rat) powi e = q"
    by (simp add: pe q_def)
  have "q < 2 ^ 1024"
  proof -
    note q53
    also have "(2::rat) ^ 53 \<le> 2 ^ 1024"
      by (rule power_increasing) simp_all
    finally show ?thesis .
  qed
  then have "double_of_rat q = Finite (of_int (n * 2 ^ nat (- e)) * 2 powi e)"
    using double_of_rat_eval [OF kb e_def m [symmetric]] r by simp
  then show ?thesis
    by (simp only: r q_def)
qed

lemma double_of_rat_error:
  assumes "0 \<le> q" and "q < 2 ^ 1023"
  shows "\<exists>r. double_of_rat q = Finite r \<and> 0 \<le> r \<and> \<bar>r - q\<bar> \<le> q / 2 ^ 53 + 1 / 2 ^ 1075"
proof (cases "q = 0")
  case True
  then show ?thesis by (simp add: double_of_rat_def)
next
  case False
  then have q: "0 < q"
    using assms(1) by simp
  define k where "k = floor_log2 q"
  have kb: "2 powi k \<le> q" "q < 2 powi (k + 1)"
    using floor_log2_bounds [OF q] by (simp_all add: k_def)
  define e where "e = max (k - 52) (- 1074)"
  define m where "m = round_half_even (q / 2 powi e)"
  define r :: rat where "r = of_int m * 2 powi e"
  have pe: "(0::rat) < 2 powi e"
    by (simp add: zero_less_power_int)
  have "\<bar>of_int m - q / 2 powi e\<bar> \<le> 1 / 2"
    unfolding m_def by (rule round_half_even_bounds)
  then have "\<bar>of_int m - q / 2 powi e\<bar> * 2 powi e \<le> 1 / 2 * 2 powi e"
    using pe by (simp only: mult_le_cancel_right_pos)
  moreover have "\<bar>of_int m - q / 2 powi e\<bar> * 2 powi e = \<bar>r - q\<bar>"
  proof -
    have "\<bar>of_int m - q / 2 powi e\<bar> * 2 powi e = \<bar>(of_int m - q / 2 powi e) * 2 powi e\<bar>"
      using pe by (simp add: abs_mult)
    also have "(of_int m - q / 2 powi e) * 2 powi e = r - q"
      using pe by (simp add: r_def algebra_simps)
    finally show ?thesis .
  qed
  ultimately have err: "\<bar>r - q\<bar> \<le> 2 powi e / 2"
    by simp
  have half: "2 powi e / 2 \<le> q / 2 ^ 53 + 1 / 2 ^ 1075"
  proof (cases "- 1074 \<le> k - 52")
    case True
    then have "e = k - 52"
      by (simp add: e_def)
    then have "(2::rat) powi e / 2 = 2 powi k / 2 ^ 53"
      by (simp add: power_int_diff)
    also have "\<dots> \<le> q / 2 ^ 53"
      using kb(1) by (simp add: divide_right_mono)
    finally show ?thesis
      by (simp add: add_increasing2)
  next
    case False
    then have "e = - 1074"
      by (simp add: e_def)
    then have "(2::rat) powi e / 2 = 1 / 2 ^ 1075"
      by (simp add: power_int_minus_divide)
    then show ?thesis
      using assms(1) by (simp add: add_increasing)
  qed
  have m0: "0 \<le> m"
    unfolding m_def using q pe by (intro round_half_even_nonneg) simp
  have r0: "0 \<le> r"
    using m0 pe by (simp add: r_def)
  have "q / 2 ^ 53 \<le> q"
    using assms(1) by (simp add: field_simps)
  moreover have "(1::rat) / 2 ^ 1075 \<le> 2 ^ 1023"
  proof -
    have "(1::rat) / 2 ^ 1075 \<le> 1"
      by simp
    also have "(1::rat) \<le> 2 ^ 1023"
      by (rule one_le_power) simp
    finally show ?thesis .
  qed
  ultimately have "r < 2 ^ 1023 + 2 ^ 1023 + 2 ^ 1023"
    using err half assms(2) by linarith
  moreover have "(2::rat) ^ 1023 + 2 ^ 1023 + 2 ^ 1023 \<le> 2 ^ 1025"
  proof -
    have "(2::rat) ^ 1025 = 4 * 2 ^ 1023"
      by (simp add: power_add [of 2 2 1023, simplified])
    then show ?thesis by simp
  qed
  ultimately have "r < 2 ^ 1025"
    by linarith
  have rlt: "r < 2 ^ 1024"
  proof -
    have "q / 2 ^ 53 + 1 / 2 ^ 1075 \<le> 2 ^ 1023"
    proof -
      have "q / 2 ^ 53 \<le> 2 ^ 1023 / 2 ^ 53"
        using assms(2) by (simp add: divide_right_mono)
      also have "(2::rat) ^ 1023 / 2 ^ 53 = 2 ^ 970"
        by (simp add: power_diff [of "2::rat" 53 1023, symmetric])
      finally have 1: "q / 2 ^ 53 \<le> 2 ^ 970" .
      have 2: "(1::rat) / 2 ^ 1075 \<le> 2 ^ 970"
      proof -
        have "(1::rat) / 2 ^ 1075 \<le> 1"
          by simp
        also have "(1::rat) \<le> 2 ^ 970"
          by (rule one_le_power) simp
        finally show ?thesis .
      qed
      have "(2::rat) ^ 970 + 2 ^ 970 = 2 ^ 971"
        by (simp add: power_add [of 2 1 970, simplified])
      moreover have "(2::rat) ^ 971 \<le> 2 ^ 1023"
        by (rule power_increasing) simp_all
      ultimately show ?thesis
        using 1 2 by linarith
    qed
    moreover have "(2::rat) ^ 1023 + 2 ^ 1023 = 2 ^ 1024"
      by (simp add: power_add [of 2 1 1023, simplified])
    ultimately show ?thesis
      using err half assms(2) by linarith
  qed
  have "double_of_rat q = Finite r"
    using double_of_rat_eval [OF kb e_def m_def] rlt by (simp add: r_def)
  then show ?thesis
    using r0 err half by auto
qed

lemma float_floordiv_exact:
  assumes "0 \<le> x" and "x < 2 ^ 53" and "0 < w"
  shows "float_floordiv (Finite x) w = Finite (of_int \<lfloor>x / of_nat w\<rfloor>)"
proof -
  define k where "k = \<lfloor>x / of_nat w\<rfloor>"
  have w: "(0::rat) < of_nat w"
    using assms(3) by simp
  have k0: "0 \<le> k"
    using assms(1) w by (simp add: k_def)
  have "of_int k \<le> x / of_nat w"
    by (simp add: k_def)
  then have kw: "of_nat w * of_int k \<le> x"
    using w by (simp add: pos_le_divide_eq mult.commute)
  have "(of_int (int w * k) :: rat) < of_int (2 ^ 53)"
    using kw assms(2) by simp
  then have wk: "int w * k < 2 ^ 53"
    by (simp only: of_int_less_iff)
  have "k \<le> int w * k"
    using k0 assms(3) by (simp add: mult_le_cancel_right1)
  then have k53: "k < 2 ^ 53"
    using wk by linarith
  have wk0: "0 \<le> int w * k"
    using k0 by simp
  have sub: "float_sub (Finite x) (float_mod (Finite x) w) = Finite (of_int (int w * k))"
  proof -
    have "float_sub (Finite x) (float_mod (Finite x) w) =
        double_of_rat (x - (x - of_nat w * of_int k))"
      by (simp add: k_def)
    also have "x - (x - of_nat w * of_int k) = of_int (int w * k)"
      by simp
    finally show ?thesis
      using double_of_rat_int [OF wk0 wk] by simp
  qed
  have "(of_int (int w * k) :: rat) / of_nat w = of_int k"
    using w by simp
  then have dv: "float_div_int (Finite (of_int (int w * k))) w = Finite (of_int k)"
    using double_of_rat_int [OF k0 k53] by simp
  have "float_floordiv (Finite x) w =
      float_snap (float_div_int (Finite (of_int (int w * k))) w)"
    by (simp only: float_floordiv_def sub)
  also have "\<dots> = float_snap (Finite (of_int k))"
    by (simp only: dv)
  also have "\<dots> = Finite (of_int k)"
    by simp
  finally show ?thesis
    by (simp only: k_def)
qed

section \<open>Digits and decimal texts\<close>

lemma is_digit_simps [simp]:
  "is_digit (CHR '':'') = False" "is_digit (CHR ''.'') = False" "is_digit (CHR ''_'') = False"
  "is_digit (CHR ''e'') = False" "is_digit (CHR ''E'') = False" "is_digit (CHR ''0'') = True"
  by (simp_all add: is_digit_def)

lemma digit_val_less: "is_digit c \<Longrightarrow> digit_val c < 10"
  by (auto simp: is_digit_def digit_val_def)

lemma int_of_digits_snoc: "int_of_digits (s @ [c]) = 10 * int_of_digits s + digit_val c"
  by (simp add: int_of_digits_def)

lemma int_of_digits_Nil [simp]: "int_of_digits [] = 0"
  by (simp add: int_of_digits_def)

lemma int_of_digits_append:
  "int_of_digits (a @ b) = int_of_digits a * 10 ^ length b + int_of_digits b"
proof (induction b rule: rev_induct)
  case Nil
  show ?case by simp
next
  case (snoc c b)
  have "int_of_digits (a @ b @ [c]) = 10 * int_of_digits (a @ b) + digit_val c"
    using int_of_digits_snoc [of "a @ b" c] by simp
  then show ?case
    by (simp add: snoc.IH int_of_digits_snoc algebra_simps)
qed

lemma int_of_digits_less:
  "list_all is_digit s \<Longrightarrow> int_of_digits s < 10 ^ length s"
proof (induction s rule: rev_induct)
  case Nil
  show ?case by simp
next
  case (snoc c s)
  then have "int_of_digits s < 10 ^ length s" and "digit_val c < 10"
    by (simp_all add: digit_val_less)
  then have "10 * int_of_digits s + digit_val c < 10 * 10 ^ length s"
    by linarith
  then show ?case
    by (simp add: int_of_digits_snoc)
qed

lemma int_of_digits_replicate_zero [simp]:
  "int_of_digits (replicate n (CHR ''0'') @ s) = int_of_digits s"
proof -
  have "int_of_digits (replicate n (CHR ''0'')) = 0"
    by (induction n) (simp_all add: int_of_digits_def digit_val_def)
  then show ?thesis
    by (simp add: int_of_digits_append)
qed

lemma int_of_digits_zfill [simp]: "int_of_digits (zfill w s) = int_of_digits s"
  by (simp add: zfill_def)

lemma digit_char_props:
  assumes "d < 10"
  shows "is_digit (digit_char d)" and "digit_val (digit_char d) = d"
proof -
  have "d \<in> {0, 1, 2, 3, 4, 5, 6, 7, 8, 9}"
    using assms by auto
  then show "is_digit (digit_char d)" and "digit_val (digit_char d) = d"
    by (auto simp: digit_char_def is_digit_def digit_val_def)
qed

lemma str_nat_digits: "list_all is_digit (str_nat n)"
proof (induction n rule: str_nat.induct)
  case (1 n)
  show ?case
  proof (cases "n < 10")
    case True
    then show ?thesis
      by (subst str_nat.simps) (simp add: digit_char_props)
  next
    case False
    then show ?thesis
      using "1.IH" by (subst str_nat.simps) (simp add: digit_char_props)
  qed
qed

lemma str_nat_not_Nil [simp]: "str_nat n \<noteq> []"
  by (subst str_nat.simps) simp

lemma all_digits_str_nat [simp]: "all_digits (str_nat n)"
  by (simp add: all_digits_def str_nat_digits)

lemma int_of_digits_str_nat [simp]: "int_of_digits (str_nat n) = n"
proof (induction n rule: str_nat.induct)
  case (1 n)
  show ?case
  proof (cases "n < 10")
    case True
    then show ?thesis
      by (subst str_nat.simps) (simp add: int_of_digits_def digit_char_props)
  next
    case False
    then show ?thesis
      using "1.IH" by (subst str_nat.simps) (simp add: int_of_digits_snoc digit_char_props)
  qed
qed

lemma length_str_nat_le:
  "n < 10 ^ k \<Longrightarrow> 0 < k \<Longrightarrow> length (str_nat n) \<le> k"
proof (induction n arbitrary: k rule: str_nat.induct)
  case (1 n)
  show ?case
  proof (cases "n < 10")
    case True
    then show ?thesis
      using "1.prems" by (subst str_nat.simps) simp
  next
    case False
    then obtain j where k: "k = Suc j" and j: "0 < j"
      using "1.prems" by (cases k; cases "k - 1") auto
    have "n div 10 < 10 ^ j"
      using "1.prems"(1) by (simp add: k less_mult_imp_div_less mult.commute)
    then have "length (str_nat (n div 10)) \<le> j"
      using "1.IH" False j by simp
    then show ?thesis
      using False by (subst str_nat.simps) (simp add: k)
  qed
qed

lemma length_str_nat_ge:
  "10 ^ k \<le> n \<Longrightarrow> k < length (str_nat n)"
proof (induction n arbitrary: k rule: str_nat.induct)
  case (1 n)
  show ?case
  proof (cases "n < 10")
    case True
    have "k = 0"
    proof (rule ccontr)
      assume "k \<noteq> 0"
      then have "(10::nat) ^ 1 \<le> 10 ^ k"
        by (intro power_increasing) auto
      then show False
        using True "1.prems" by simp
    qed
    then show ?thesis
      by (subst str_nat.simps) simp
  next
    case False
    show ?thesis
    proof (cases k)
      case 0
      then show ?thesis by (subst str_nat.simps) simp
    next
      case (Suc j)
      then have "10 ^ j \<le> n div 10"
        using "1.prems" by (simp add: less_eq_div_iff_mult_less_eq mult.commute)
      then have "j < length (str_nat (n div 10))"
        using "1.IH" False by simp
      then show ?thesis
        using False by (subst str_nat.simps) (simp add: Suc)
    qed
  qed
qed

lemma length_zfill: "length (zfill w s) = max w (length s)"
  by (simp add: zfill_def)

lemma all_digits_zfill [simp]: "all_digits s \<Longrightarrow> all_digits (zfill w s)"
  by (auto simp: all_digits_def zfill_def list_all_iff)

lemma length_zfill_2_str_nat:
  "length (zfill 2 (str_nat n)) = (if n < 100 then 2 else length (str_nat n))"
proof (cases "n < 100")
  case True
  then have "length (str_nat n) \<le> 2"
    using length_str_nat_le [of n 2] by simp
  then show ?thesis
    using True by (simp add: length_zfill)
next
  case False
  then have "2 < length (str_nat n)"
    using length_str_nat_ge [of 2 n] by simp
  then show ?thesis
    using False by (simp add: length_zfill)
qed

lemma length_zfill_9_str_nat:
  "n < 10 ^ 9 \<Longrightarrow> length (zfill 9 (str_nat n)) = 9"
  using length_str_nat_le [of n 9] by (simp add: length_zfill)

section \<open>Reading a timecode text\<close>

lemma takeWhile_digits:
  assumes "list_all is_digit h" and "\<not> is_digit c"
  shows "takeWhile (\<lambda>x. x \<noteq> c) (h @ c # r) = h"
proof -
  have "\<forall>x \<in> set h. x \<noteq> c"
    using assms by (auto simp: list_all_iff)
  then show ?thesis
    by (simp add: takeWhile_append2)
qed

lemma parts_of_text:
  assumes "all_digits ip"
  shows "int_part (ip @ CHR ''.'' # fp) = ip" and "frac_part (ip @ CHR ''.'' # fp) = fp"
proof -
  have dip: "list_all is_digit ip"
    using assms by (simp add: all_digits_def)
  show ip: "int_part (ip @ CHR ''.'' # fp) = ip"
    using takeWhile_digits [OF dip, of "CHR ''.''"] by (simp add: int_part_def)
  show "frac_part (ip @ CHR ''.'' # fp) = fp"
    by (simp add: frac_part_def ip)
qed

lemma fields_of_text:
  assumes "all_digits h" and "all_digits m"
    and "s = h @ CHR '':'' # m @ CHR '':'' # sec"
  shows "hours_field s = h" and "minutes_field s = m" and "seconds_field s = sec"
proof -
  have dh: "list_all is_digit h" and dm: "list_all is_digit m"
    using assms(1,2) by (simp_all add: all_digits_def)
  have h: "hours_field (h @ CHR '':'' # m @ CHR '':'' # sec) = h"
    using takeWhile_digits [OF dh, of "CHR '':''"] by (simp add: hours_field_def)
  have m: "minutes_field (h @ CHR '':'' # m @ CHR '':'' # sec) = m"
    using takeWhile_digits [OF dm, of "CHR '':''"] by (simp add: minutes_field_def h)
  have sec: "seconds_field (h @ CHR '':'' # m @ CHR '':'' # sec) = sec"
    by (simp add: seconds_field_def h m)
  show "hours_field s = h" and "minutes_field s = m" and "seconds_field s = sec"
    by (simp_all only: assms(3) h m sec)
qed

lemma well_formed_text:
  assumes "all_digits h" and "all_digits m" and "all_digits ip" and "all_digits fp"
    and "s = h @ CHR '':'' # m @ CHR '':'' # ip @ CHR ''.'' # fp"
  shows "well_formed s"
  using assms(1,2,3,4)
  by (simp add: well_formed_def fields_of_text [OF assms(1,2,5)] parts_of_text [OF assms(3)]
      assms(5) [symmetric])

lemma well_formed_fields:
  assumes "well_formed s"
  shows "all_digits (hours_field s)" and "all_digits (minutes_field s)"
    and "all_digits (int_part (seconds_field s))" and "all_digits (frac_part (seconds_field s))"
    and "s = hours_field s @ CHR '':'' # minutes_field s @ CHR '':'' #
          int_part (seconds_field s) @ CHR ''.'' # frac_part (seconds_field s)"
  using assms by (simp_all add: well_formed_def)

lemma total_seconds_text:
  assumes "all_digits h" and "all_digits m" and "all_digits ip" and "all_digits fp"
    and "s = h @ CHR '':'' # m @ CHR '':'' # ip @ CHR ''.'' # fp"
  shows "total_seconds s =
           3600 * of_nat (int_of_digits h) + 60 * of_nat (int_of_digits m) +
           (of_nat (int_of_digits ip) + of_nat (int_of_digits fp) / 10 ^ length fp)"
  by (simp only: total_seconds_def decimal_value_def fields_of_text [OF assms(1,2,5)]
      parts_of_text [OF assms(3)])

lemma digitpart_digits:
  assumes "list_all is_digit ds" and "r = [] \<or> (\<not> is_digit (hd r) \<and> hd r \<noteq> CHR ''_'')"
  shows "digitpart (ds @ r) = (ds, r)"
  using assms
proof (induction ds)
  case Nil
  then show ?case
    by (cases r rule: digitpart.cases) auto
next
  case (Cons d ds)
  then have d: "is_digit d" and ds: "list_all is_digit ds"
    by simp_all
  have ih: "digitpart (ds @ r) = (ds, r)"
    using Cons.IH [OF ds Cons.prems(2)] .
  show ?case
  proof (cases "ds @ r")
    case Nil
    then show ?thesis
      using d by simp
  next
    case (Cons u cs)
    have "u \<noteq> CHR ''_''"
    proof (cases ds)
      case Nil
      then show ?thesis
        using Cons Cons.prems \<open>r = [] \<or> (\<not> is_digit (hd r) \<and> hd r \<noteq> CHR ''_'')\<close> by auto
    next
      case (Cons d' ds')
      then have "is_digit u"
        using \<open>ds @ r = u # cs\<close> ds by simp
      then show ?thesis
        by auto
    qed
    then show ?thesis
      using d ih Cons by simp
  qed
qed

lemma py_int_digits:
  assumes "all_digits ds"
  shows "py_int ds = Inr (int_of_digits ds)"
  using assms digitpart_digits [of ds "[]"] by (simp add: py_int_def all_digits_def)

lemma py_float_decimal:
  assumes "all_digits ip" and "all_digits fp"
  shows "py_float (ip @ CHR ''.'' # fp) =
           Inr (double_of_rat (of_nat (int_of_digits (ip @ fp)) / 10 ^ length fp))"
proof -
  have 1: "digitpart (ip @ CHR ''.'' # fp) = (ip, CHR ''.'' # fp)"
    using assms(1) by (intro digitpart_digits) (simp_all add: all_digits_def)
  have 2: "digitpart fp = (fp, [])"
    using assms(2) digitpart_digits [of fp "[]"] by (simp add: all_digits_def)
  have 3: "exponent_part [] = Some (0, [])"
    by (simp add: exponent_part_def)
  have 4: "(10::rat) powi (- int (length fp)) = 1 / 10 ^ length fp"
    by (simp add: power_int_minus_divide)
  show ?thesis
    using assms by (simp add: py_float_def 1 2 3 4 all_digits_def)
qed

lemma decimal_less:
  assumes "all_digits ip" and "all_digits fp"
  shows "(of_nat (int_of_digits (ip @ fp)) :: rat) / 10 ^ length fp =
           of_nat (int_of_digits ip) + of_nat (int_of_digits fp) / 10 ^ length fp"
    and "(of_nat (int_of_digits fp) :: rat) / 10 ^ length fp < 1"
    and "(0::rat) \<le> of_nat (int_of_digits fp) / 10 ^ length fp"
proof -
  show "(of_nat (int_of_digits (ip @ fp)) :: rat) / 10 ^ length fp =
           of_nat (int_of_digits ip) + of_nat (int_of_digits fp) / 10 ^ length fp"
    by (simp add: int_of_digits_append add_divide_distrib)
  have "int_of_digits fp < 10 ^ length fp"
    using assms(2) by (simp add: int_of_digits_less all_digits_def)
  then have "(of_nat (int_of_digits fp) :: rat) < of_nat (10 ^ length fp)"
    by (simp only: of_nat_less_iff)
  then show "(of_nat (int_of_digits fp) :: rat) / 10 ^ length fp < 1"
    by simp
  show "(0::rat) \<le> of_nat (int_of_digits fp) / 10 ^ length fp"
    by simp
qed

lemma slices_of_text:
  assumes "length h = 2" and "length m = 2" and "s = h @ CHR '':'' # m @ CHR '':'' # sec"
  shows "take 2 s = h" and "take 2 (drop 3 s) = m" and "drop 6 s = sec"
  using assms by simp_all

lemma int_of_two_digits:
  assumes "all_digits h" and "length h = 2"
  shows "int_of_digits h \<le> 99"
proof -
  have "int_of_digits h < 10 ^ length h"
    using assms(1) by (simp add: int_of_digits_less all_digits_def)
  then show ?thesis
    by (simp add: assms(2))
qed

end
